theory Spec2Isabelle
  imports Main "HOL-Library.Word" "HOL-Library.Sublist"
begin

section \<open>Bytes, C strings and pointers into the line buffer\<close>

text \<open>
  A \<^typ>\<open>char\<close> is one byte. A block of memory holding a C string is modelled by the list
  of its bytes; the terminating NUL that the C library always writes after them is
  implicit: reading at the end of the list reads that terminator. A pointer into the line
  buffer is modelled by the bytes from the address it points to up to the end of the
  buffer, so that \<open>p + n\<close> is \<open>drop n p\<close>, \<open>*p\<close> is \<open>deref p\<close> and the offset \<open>p - line\<close> is
  \<open>length line - length p\<close>.
\<close>

abbreviation NUL :: char where "NUL \<equiv> CHR 0x00"

abbreviation tab :: char where "tab \<equiv> CHR 0x09"

abbreviation newline :: char where "newline \<equiv> CHR 0x0A"

abbreviation blank :: char where "blank \<equiv> CHR 0x20"

definition deref :: "string \<Rightarrow> char" where
  "deref p = (case p of [] \<Rightarrow> NUL | c # _ \<Rightarrow> c)"

text \<open>The byte at index \<open>i\<close> of a buffer; index \<open>length s\<close> is the terminator.\<close>

definition byte_at :: "string \<Rightarrow> nat \<Rightarrow> char" where
  "byte_at s i = (if i < length s then s ! i else NUL)"

text \<open>The C string that starts at a pointer: the bytes before the first NUL.\<close>

definition cstr :: "string \<Rightarrow> string" where
  "cstr p = takeWhile (\<lambda>c. c \<noteq> NUL) p"

definition strlen :: "string \<Rightarrow> nat" where
  "strlen p = length (cstr p)"

text \<open>\<open>strchr(s, c)\<close> for \<open>c \<noteq> NUL\<close>: the offset of the first \<open>c\<close> in the C string, if any.\<close>

fun strchr :: "string \<Rightarrow> char \<Rightarrow> nat option" where
  "strchr [] c = None"
| "strchr (x # s) c =
     (if x = c then Some 0
      else if x = NUL then None
      else map_option Suc (strchr s c))"

text \<open>
  \<open>strncmp(s1, s2, n)\<close>: compares at most \<open>n\<close> bytes, as unsigned chars, and stops after
  a NUL. Only whether the result is zero matters to the parser.
\<close>

fun strncmp :: "string \<Rightarrow> string \<Rightarrow> nat \<Rightarrow> int" where
  "strncmp s1 s2 0 = 0"
| "strncmp s1 s2 (Suc n) =
     (if deref s1 \<noteq> deref s2 then int (of_char (deref s1)) - int (of_char (deref s2))
      else if deref s1 = NUL then 0
      else strncmp (tl s1) (tl s2) n)"

text \<open>
  The conversion of a length to \<open>int\<close>, written \<open>(int)\<close> in the source: the low 32 bits,
  read as two's complement.
\<close>

definition int_cast :: "int \<Rightarrow> int" where
  "int_cast x = sint (word_of_int x :: 32 word)"

section \<open>The C library functions the parser calls\<close>

definition isspace :: "char \<Rightarrow> bool" where
  "isspace c = (c = blank \<or> c = tab \<or> c = newline \<or> c = CHR 0x0B \<or> c = CHR 0x0C \<or> c = CHR 0x0D)"

definition isdigit :: "char \<Rightarrow> bool" where
  "isdigit c = (48 \<le> (of_char c :: nat) \<and> (of_char c :: nat) \<le> 57)"

definition LONG_MAX :: int where
  "LONG_MAX = 2 ^ 63 - 1"

definition LONG_MIN :: int where
  "LONG_MIN = - (2 ^ 63)"

text \<open>The number a string of decimal digits denotes.\<close>

definition decimal :: "string \<Rightarrow> int" where
  "decimal ds = foldl (\<lambda>acc c. 10 * acc + (int (of_char c) - 48)) 0 ds"

text \<open>
  \<open>strtol(nptr, &endptr, 10)\<close> with a 64-bit \<open>long\<close>: white space is skipped, then an
  optional sign, then decimal digits. The result is the value (clamped to the range of
  \<open>long\<close>) and the offset of \<open>endptr\<close> in \<open>nptr\<close>. With no digit there is no conversion:
  the value is 0 and \<open>endptr\<close> is \<open>nptr\<close>.
\<close>

definition strtol :: "string \<Rightarrow> int \<times> nat" where
  "strtol nptr =
     (let s1 = dropWhile isspace nptr;
          neg = (deref s1 = CHR ''-'');
          s2 = (if deref s1 = CHR ''-'' \<or> deref s1 = CHR ''+'' then drop 1 s1 else s1);
          ds = takeWhile isdigit s2
      in if ds = [] then (0, 0)
         else (if neg then max LONG_MIN (- decimal ds) else min LONG_MAX (decimal ds),
               length nptr - length s2 + length ds))"

text \<open>
  The platform: which files \<open>fopen(pathname, "r")\<close> can open and what they hold, whether
  \<open>fclose\<close> succeeds, and the floating-point conversions of \<open>strtod\<close> and \<open>strtof\<close>. A
  \<open>double\<close> is modelled by its 64 bits and a \<open>float\<close> by its 32 bits, so that 0 is
  positive zero; a conversion gives the bits and the offset of \<open>endptr\<close>.
\<close>

record libc =
  fopen_read :: "string \<Rightarrow> string option"
  fclose_ok :: bool
  strtod_conv :: "string \<Rightarrow> 64 word \<times> nat"
  strtof_conv :: "string \<Rightarrow> 32 word \<times> nat"

text \<open>
  \<open>strtod\<close> and \<open>strtof\<close>: on the empty string no conversion is performed, zero is
  returned and \<open>endptr\<close> is \<open>nptr\<close> (C11 7.22.1.3); every other string is left to the
  platform's conversion, whose \<open>endptr\<close> stays inside the string.
\<close>

definition strtod :: "libc \<Rightarrow> string \<Rightarrow> 64 word \<times> nat" where
  "strtod L nptr =
     (if nptr = [] then (0, 0)
      else (fst (strtod_conv L nptr), min (snd (strtod_conv L nptr)) (length nptr)))"

definition strtof :: "libc \<Rightarrow> string \<Rightarrow> 32 word \<times> nat" where
  "strtof L nptr =
     (if nptr = [] then (0, 0)
      else (fst (strtof_conv L nptr), min (snd (strtof_conv L nptr)) (length nptr)))"

text \<open>
  \<open>getline\<close>: the next line of the stream with its newline (the last line may have
  none) and the rest of the stream; \<open>None\<close> at the end of the stream (the source's -1).
\<close>

definition getline :: "string \<Rightarrow> (string \<times> string) option" where
  "getline stream =
     (if stream = [] then None
      else (let l = takeWhile (\<lambda>c. c \<noteq> newline) stream;
                r = dropWhile (\<lambda>c. c \<noteq> newline) stream
            in Some (if r = [] then (l, []) else (l @ [newline], tl r))))"

section \<open>Types of micro-conf.h\<close>

datatype MicroConfType =
    MICRO_CONF_BOOL
  | MICRO_CONF_INT
  | MICRO_CONF_FLOAT
  | MICRO_CONF_DOUBLE
  | MICRO_CONF_CHAR
  | MICRO_CONF_STR
  | MICRO_CONF_OTHER int  \<comment> \<open>a value outside the enumeration\<close>

type_synonym addr = nat

text \<open>
  \<open>MicroConf\<close>: the type, the address of the destination (the source's \<open>void *value\<close>) and
  the key.
\<close>

record MicroConf =
  mc_type :: MicroConfType
  mc_value :: addr
  mc_name :: string

datatype micro_conf_rc =
    MICRO_CONF_OK
  | MICRO_CONF_ERROR_CONF_NULL
  | MICRO_CONF_ERROR_OPENING_FILE
  | MICRO_CONF_ERROR_CLOSING_FILE
  | MICRO_CONF_ERROR_UNKNOWN_TYPE
  | MICRO_CONF_ERROR_INVALID_BOOL
  | MICRO_CONF_ERROR_INVALID_INT
  | MICRO_CONF_ERROR_INVALID_DOUBLE
  | MICRO_CONF_ERROR_INVALID_FLOAT
  | MICRO_CONF_ERROR_INVALID_CHAR

fun rc_code :: "micro_conf_rc \<Rightarrow> int" where
  "rc_code MICRO_CONF_OK = 0"
| "rc_code MICRO_CONF_ERROR_CONF_NULL = -1"
| "rc_code MICRO_CONF_ERROR_OPENING_FILE = -2"
| "rc_code MICRO_CONF_ERROR_CLOSING_FILE = -3"
| "rc_code MICRO_CONF_ERROR_UNKNOWN_TYPE = -4"
| "rc_code MICRO_CONF_ERROR_INVALID_BOOL = -5"
| "rc_code MICRO_CONF_ERROR_INVALID_INT = -6"
| "rc_code MICRO_CONF_ERROR_INVALID_DOUBLE = -7"
| "rc_code MICRO_CONF_ERROR_INVALID_FLOAT = -8"
| "rc_code MICRO_CONF_ERROR_INVALID_CHAR = -9"

text \<open>
  The caller's memory: what each destination holds. A \<open>char *\<close> destination holds the
  string its pointer points to (for a parsed value, the copy \<open>strdup\<close> made).
\<close>

datatype cval =
    VBool bool
  | VInt "32 word"
  | VFloat "32 word"
  | VDouble "64 word"
  | VChar char
  | VStr string

type_synonym store = "addr \<Rightarrow> cval"

section \<open>left_space\<close>

text \<open>
  The loop of \<open>left_space\<close>, from position \<open>pos\<close>. Both callers pass NULL for \<open>line\<close> and
  \<open>column\<close>, so the counters are not modelled.
\<close>

function left_space_loop :: "string \<Rightarrow> int \<Rightarrow> nat \<Rightarrow> nat" where
  "left_space_loop input input_size pos =
     (if int pos < input_size \<and>
         (byte_at input pos = blank \<or> byte_at input pos = newline \<or> byte_at input pos = tab)
      then left_space_loop input input_size (pos + 1)
      else pos)"
  by pat_completeness auto

termination
  by (relation "measure (\<lambda>(input, input_size, pos). nat input_size - pos)") auto

declare left_space_loop.simps [simp del]

definition left_space :: "string \<Rightarrow> int \<Rightarrow> nat" where
  "left_space input input_size =
     (if input_size = 0 then 0 else left_space_loop input input_size 0)"

section \<open>micro_conf_parse\<close>

text \<open>Lines 232-233: the first \<open>#\<close> of the line, if any, is overwritten with NUL.\<close>

definition strip_comment :: "string \<Rightarrow> string" where
  "strip_comment line =
     (case strchr line CHR ''#'' of None \<Rightarrow> line | Some k \<Rightarrow> line[k := NUL])"

text \<open>Lines 235-236: the pointer \<open>trimmed\<close>, and \<open>space\<close>.\<close>

definition leading_space :: "string \<Rightarrow> nat" where
  "leading_space line0 = left_space (strip_comment line0) (int_cast (int (length line0)))"

definition trimmed_ptr :: "string \<Rightarrow> string" where
  "trimmed_ptr line0 = drop (leading_space line0) (strip_comment line0)"

text \<open>
  Lines 256-257: the loop that cuts newlines and blanks off the end of the value; the
  result is the new \<open>vlen\<close>.
\<close>

fun trim_loop :: "string \<Rightarrow> nat \<Rightarrow> nat" where
  "trim_loop value_str 0 = 0"
| "trim_loop value_str (Suc n) =
     (if value_str ! n = newline \<or> value_str ! n = blank then trim_loop value_str n
      else Suc n)"

text \<open>
  Lines 246-257, for a binding whose key matched: the value string. \<open>line\<close> is the buffer
  after comment stripping, \<open>read\<close> the length \<open>getline\<close> returned, \<open>trimmed\<close> the pointer
  after the leading white space.
\<close>

definition value_str :: "string \<Rightarrow> int \<Rightarrow> nat \<Rightarrow> string \<Rightarrow> string \<Rightarrow> string" where
  "value_str line read space trimmed name =
     (let name_len = strlen name;
          after_name1 = drop name_len trimmed;
          space1 = left_space after_name1 (int_cast (read - int space - int name_len));
          after_name2 = drop space1 after_name1;
          after_name3 = (if deref after_name2 = CHR ''='' \<or> deref after_name2 = CHR '':''
                         then drop 1 after_name2 else after_name2);
          space2 = left_space after_name3
                     (int_cast (read - (int (length line) - int (length after_name3))));
          after_name4 = drop space2 after_name3;
          v = cstr after_name4;
          vlen = trim_loop v (length v)
      in take vlen v)"

text \<open>
  Lines 240-244 and 343: the loop over the bindings stops at the first one whose key the
  trimmed text starts with.
\<close>

fun find_conf :: "MicroConf list \<Rightarrow> string \<Rightarrow> MicroConf option" where
  "find_conf [] trimmed = None"
| "find_conf (c # conf) trimmed =
     (if strncmp trimmed (mc_name c) (strlen (mc_name c)) \<noteq> 0 then find_conf conf trimmed
      else Some c)"

text \<open>
  Lines 232-257: what a line yields, the matched binding and the value string, or
  nothing when the line is skipped.
\<close>

definition scan_line :: "MicroConf list \<Rightarrow> string \<Rightarrow> (MicroConf \<times> string) option" where
  "scan_line conf line0 =
     (let read = int (length line0);
          line = strip_comment line0;
          space = leading_space line0;
          trimmed = trimmed_ptr line0
      in if deref trimmed = NUL \<or> deref trimmed = newline then None
         else (case find_conf conf trimmed of
                 None \<Rightarrow> None
               | Some c \<Rightarrow> Some (c, value_str line read space trimmed (mc_name c))))"

text \<open>
  Lines 259-341: the switch on the type of the binding. \<open>Inl\<close> is the error the parse
  returns with; \<open>Inr\<close> is the memory after the write. The value string \<open>v\<close> holds the
  bytes up to its terminator, so \<open>strcmp(value_str, s) == 0\<close> is \<open>v = s\<close> and \<open>*endptr\<close>
  is the byte of \<open>v\<close> at the offset of \<open>endptr\<close>. The copy that \<open>strdup\<close> makes is assumed
  to succeed, and \<open>(int)val\<close> keeps the low 32 bits of the \<open>long\<close>.
\<close>

definition store_value :: "libc \<Rightarrow> MicroConf \<Rightarrow> string \<Rightarrow> store \<Rightarrow> micro_conf_rc + store" where
  "store_value L c v st =
     (case mc_type c of
        MICRO_CONF_BOOL \<Rightarrow>
          if v = ''true'' \<or> v = ''1'' then Inr (st(mc_value c := VBool True))
          else if v = ''false'' \<or> v = ''0'' then Inr (st(mc_value c := VBool False))
          else Inl MICRO_CONF_ERROR_INVALID_BOOL
      | MICRO_CONF_CHAR \<Rightarrow>
          if strlen v = 1 then Inr (st(mc_value c := VChar (deref v)))
          else Inl MICRO_CONF_ERROR_INVALID_CHAR
      | MICRO_CONF_STR \<Rightarrow> Inr (st(mc_value c := VStr v))
      | MICRO_CONF_INT \<Rightarrow>
          if byte_at v (snd (strtol v)) \<noteq> NUL then Inl MICRO_CONF_ERROR_INVALID_INT
          else Inr (st(mc_value c := VInt (word_of_int (fst (strtol v)))))
      | MICRO_CONF_DOUBLE \<Rightarrow>
          if byte_at v (snd (strtod L v)) \<noteq> NUL then Inl MICRO_CONF_ERROR_INVALID_DOUBLE
          else Inr (st(mc_value c := VDouble (fst (strtod L v))))
      | MICRO_CONF_FLOAT \<Rightarrow>
          if byte_at v (snd (strtof L v)) \<noteq> NUL then Inl MICRO_CONF_ERROR_INVALID_FLOAT
          else Inr (st(mc_value c := VFloat (fst (strtof L v))))
      | MICRO_CONF_OTHER _ \<Rightarrow> Inl MICRO_CONF_ERROR_UNKNOWN_TYPE)"

text \<open>The body of the \<open>while\<close> loop, lines 232-344, for one line.\<close>

definition process_line :: "libc \<Rightarrow> MicroConf list \<Rightarrow> string \<Rightarrow> store \<Rightarrow> micro_conf_rc + store" where
  "process_line L conf line0 st =
     (case scan_line conf line0 of
        None \<Rightarrow> Inr st
      | Some (c, v) \<Rightarrow> store_value L c v st)"

text \<open>The lines that the successive calls of \<open>getline\<close> return.\<close>

function read_lines :: "string \<Rightarrow> string list" where
  "read_lines stream =
     (case getline stream of
        None \<Rightarrow> []
      | Some (line, rest) \<Rightarrow> line # read_lines rest)"
  by pat_completeness auto

termination
proof (relation "measure length")
  show "wf (measure length)" by simp
next
  fix stream :: string and x2 line rest
  assume "getline stream = Some x2" and "(line, rest) = x2"
  then have g: "getline stream = Some (line, rest)" by simp
  then have ne: "stream \<noteq> []" by (auto simp: getline_def split: if_splits)
  have "length rest < length stream"
  proof (cases "dropWhile (\<lambda>c. c \<noteq> newline) stream")
    case Nil
    with g ne show ?thesis by (auto simp: getline_def Let_def)
  next
    case (Cons a r)
    with g ne have "rest = r" by (auto simp: getline_def Let_def)
    moreover have "length (dropWhile (\<lambda>c. c \<noteq> newline) stream) \<le> length stream"
      by (rule length_dropWhile_le)
    ultimately show ?thesis using Cons by simp
  qed
  then show "(rest, stream) \<in> measure length" by simp
qed

declare read_lines.simps [simp del]

text \<open>
  The \<open>while\<close> loop, lines 230-345: the lines are processed in order; the first error
  ends the call, with the memory as the earlier lines left it.
\<close>

fun parse_lines :: "libc \<Rightarrow> MicroConf list \<Rightarrow> string list \<Rightarrow> store \<Rightarrow> micro_conf_rc \<times> store" where
  "parse_lines L conf [] st = (MICRO_CONF_OK, st)"
| "parse_lines L conf (line # rest) st =
     (case process_line L conf line st of
        Inl err \<Rightarrow> (err, st)
      | Inr st' \<Rightarrow> parse_lines L conf rest st')"

text \<open>
  \<open>micro_conf_parse(conf, num_conf, pathname)\<close>: \<open>conf\<close> is \<open>None\<close> for a NULL pointer and
  otherwise the array of \<open>num_conf\<close> bindings. The result is the return code and the
  caller's memory after the call.
\<close>

definition micro_conf_parse ::
    "libc \<Rightarrow> MicroConf list option \<Rightarrow> string \<Rightarrow> store \<Rightarrow> micro_conf_rc \<times> store" where
  "micro_conf_parse L conf pathname st =
     (case conf of
        None \<Rightarrow> (MICRO_CONF_ERROR_CONF_NULL, st)
      | Some bindings \<Rightarrow>
          (case fopen_read L pathname of
             None \<Rightarrow> (MICRO_CONF_ERROR_OPENING_FILE, st)
           | Some stream \<Rightarrow>
               (case parse_lines L bindings (read_lines stream) st of
                  (MICRO_CONF_OK, st') \<Rightarrow>
                    if fclose_ok L then (MICRO_CONF_OK, st')
                    else (MICRO_CONF_ERROR_CLOSING_FILE, st')
                | (err, st') \<Rightarrow> (err, st'))))"

section \<open>Example inputs\<close>

text \<open>
  A platform on which only \<open>micro.conf\<close> can be opened, holding \<open>content\<close>; the
  floating-point conversions accept nothing. And a memory in which every destination
  holds the integer 10.
\<close>

definition example_libc :: "string \<Rightarrow> libc" where
  "example_libc content =
     \<lparr>fopen_read = (\<lambda>p. if p = ''micro.conf'' then Some content else None),
      fclose_ok = True,
      strtod_conv = (\<lambda>s. (0, 0)),
      strtof_conv = (\<lambda>s. (0, 0))\<rparr>"

definition defaults :: store where
  "defaults = (\<lambda>a. VInt 10)"

definition binding :: "MicroConfType \<Rightarrow> addr \<Rightarrow> string \<Rightarrow> MicroConf" where
  "binding t a k = \<lparr>mc_type = t, mc_value = a, mc_name = k\<rparr>"

text \<open>
  Binding lists: an Int, a Bool and a String binding with plain keys; one Int binding
  with the key \<open>key\<close>; and two Int bindings of which the first has the key \<open>x\<close>
  followed by two blanks.
\<close>

definition example_conf :: "MicroConf list" where
  "example_conf =
     [binding MICRO_CONF_INT 0 ''x'', binding MICRO_CONF_BOOL 1 ''flag'',
      binding MICRO_CONF_STR 2 ''name'']"

definition key_conf :: "MicroConf list" where
  "key_conf = [binding MICRO_CONF_INT 0 ''key'']"


text \<open>
  Two Int bindings of which the first has the key \<open>key = 5\<close> followed by a blank, and
  two of which the first has the key \<open>x:\<close>.
\<close>

definition comment_conf :: "MicroConf list" where
  "comment_conf = [binding MICRO_CONF_INT 0 ''key = 5 '', binding MICRO_CONF_INT 1 ''key'']"


text \<open>Lines of a configuration file, as \<open>getline\<close> returns them.\<close>

definition line_x1 :: string where "line_x1 = ''x = 1'' @ [newline]"

definition line_x3 :: string where "line_x3 = ''x = 3''"


definition line_flag_maybe :: string where "line_flag_maybe = ''flag = maybe'' @ [newline]"

definition line_flag_true :: string where "line_flag_true = ''flag: true'' @ [newline]"

definition line_x12abc :: string where "line_x12abc = ''x = 12abc'' @ [newline]"


definition line_x_neg42 :: string where "line_x_neg42 = ''x = -42'' @ [newline]"

definition line_x_empty :: string where "line_x_empty = ''x ='' @ [newline]"

definition line_flag_empty :: string where "line_flag_empty = ''flag ='' @ [newline]"

text \<open>
  Long lines, without a newline: a line of \<open>2 ^ 31\<close> bytes that begins with a blank, and
  two lines of \<open>2 ^ 31 + 1\<close> bytes, one without and one with a separator. Each ends in a
  comment that fills it up.
\<close>

definition long_comment_line :: string where
  "long_comment_line = '' x = 1 #'' @ replicate (2 ^ 31 - 8) CHR ''c''"



text \<open>The end-to-end scenario of the specification (section 8, property 7).\<close>

definition scenario_conf :: "MicroConf list" where
  "scenario_conf = [binding MICRO_CONF_INT 0 ''a'', binding MICRO_CONF_STR 1 ''b'']"

definition scenario_line1 :: string where "scenario_line1 = ''a = 69'' @ [newline]"

definition scenario_line2 :: string where
  "scenario_line2 = ''b: hello world   # greeting'' @ [newline]"

section \<open>The scan of a line as a function of its text\<close>

text \<open>
  The definitions of this section are not taken from the source. They describe, with
  list functions, what the pointer code of the scan computes, in the words of the
  specification (section 4): truncate the line at the first \<open>#\<close>, drop the leading white
  space, take the first binding whose key is a prefix of what is left, skip white space
  after the key, one \<open>=\<close> or \<open>:\<close>, white space again, and strip the end of the value. The
  lemma \<open>scan_line_eq\<close> below proves that \<open>scan_line\<close>, the function taken from the source,
  computes this description on every line of fewer than \<open>2 ^ 31\<close> bytes.
\<close>

text \<open>The characters \<open>left_space\<close> skips.\<close>

definition sep_char :: "char \<Rightarrow> bool" where
  "sep_char c = (c = blank \<or> c = newline \<or> c = tab)"

text \<open>The text of a line before its comment (and before a NUL byte, if the file has one).\<close>

definition line_text :: "string \<Rightarrow> string" where
  "line_text line0 = takeWhile (\<lambda>c. c \<noteq> NUL \<and> c \<noteq> CHR ''#'') line0"

text \<open>One separator is stepped over when the text begins with it.\<close>

definition skip_sep :: "string \<Rightarrow> string" where
  "skip_sep p = (if deref p = CHR ''='' \<or> deref p = CHR '':'' then drop 1 p else p)"

text \<open>The newlines and blanks at the end are cut; a tab there is kept.\<close>

definition rtrim :: "string \<Rightarrow> string" where
  "rtrim v = rev (dropWhile (\<lambda>c. c = newline \<or> c = blank) (rev v))"

text \<open>The value string, from the text that follows the key.\<close>

definition value_text :: "string \<Rightarrow> string" where
  "value_text r = rtrim (dropWhile sep_char (skip_sep (dropWhile sep_char r)))"

text \<open>The binding and the value string of a line, from the text before its comment.\<close>

definition scan_text :: "MicroConf list \<Rightarrow> string \<Rightarrow> (MicroConf \<times> string) option" where
  "scan_text conf txt =
     (let t = dropWhile sep_char txt
      in if t = [] then None
         else (case find (\<lambda>c. prefix (cstr (mc_name c)) t) conf of
                 None \<Rightarrow> None
               | Some c \<Rightarrow> Some (c, value_text (drop (strlen (mc_name c)) t))))"


definition tail_char :: "char \<Rightarrow> bool" where
  "tail_char c = (c = newline \<or> c = blank)"

definition keeps_keys :: "(char \<Rightarrow> bool) \<Rightarrow> string \<Rightarrow> string \<Rightarrow> bool" where
  "keeps_keys W X Y = (\<forall>n. (\<forall>ch\<in>set n. \<not> W ch) \<longrightarrow> prefix n X \<longrightarrow> prefix n Y)"


section \<open>Lengths, white space and C strings\<close>

lemma int_cast_id: "0 \<le> x \<Longrightarrow> x < 2 ^ 31 \<Longrightarrow> int_cast x = x"
  unfolding int_cast_def
  by (simp add: signed_take_bit_int_eq_self sint_sbintrunc')

text \<open>
  Lengths of \<open>2 ^ 31\<close> bytes or more do not survive the cast: \<open>2 ^ 31\<close> becomes
  \<open>- (2 ^ 31)\<close>, and with a negative size \<open>left_space\<close> skips nothing. The properties of
  the scan below are therefore stated for lines of fewer than \<open>2 ^ 31\<close> bytes.
\<close>

lemma int_cast_wraps: "int_cast (2 ^ 31) = - (2 ^ 31)"
  by (simp add: int_cast_def)

lemma left_space_negative: "n < 0 \<Longrightarrow> left_space input n = 0"
  by (simp add: left_space_def left_space_loop.simps)

lemma left_space_loop_eq:
  "pos \<le> length input \<Longrightarrow> int (length input) \<le> n \<Longrightarrow>
   left_space_loop input n pos = pos + length (takeWhile sep_char (drop pos input))"
proof (induction input n pos rule: left_space_loop.induct)
  case (1 input n pos)
  show ?case
  proof (cases "pos < length input")
    case True
    then have d: "drop pos input = input ! pos # drop (Suc pos) input"
      by (simp add: Cons_nth_drop_Suc)
    have c: "(byte_at input pos = blank \<or> byte_at input pos = newline \<or> byte_at input pos = tab)
               = sep_char (input ! pos)"
      using True by (simp add: byte_at_def sep_char_def)
    have lt: "int pos < n" using True 1(3) by simp
    show ?thesis
    proof (cases "sep_char (input ! pos)")
      case sep: True
      have "left_space_loop input n pos = left_space_loop input n (pos + 1)"
        by (subst left_space_loop.simps) (simp add: c sep lt)
      also have "\<dots> = (pos + 1) + length (takeWhile sep_char (drop (pos + 1) input))"
        using True 1(3) lt c sep by (intro 1(1)) auto
      finally show ?thesis by (simp add: d sep)
    next
      case False
      have "left_space_loop input n pos = pos"
        by (subst left_space_loop.simps) (simp add: c False)
      then show ?thesis by (simp add: d False)
    qed
  next
    case False
    with 1 show ?thesis
      by (subst left_space_loop.simps) (auto simp: byte_at_def)
  qed
qed

lemma left_space_eq:
  "int (length input) \<le> n \<Longrightarrow> left_space input n = length (takeWhile sep_char input)"
  using left_space_loop_eq [of 0 input n]
  by (cases input) (auto simp: left_space_def left_space_loop.simps [of "[]"] byte_at_def)

lemma left_space_cast:
  assumes "length input < 2 ^ 31" and "k = int (length input)"
  shows "left_space input (int_cast k) = length (takeWhile sep_char input)"
proof -
  have "int (length input) < 2 ^ 31" using assms(1) by (simp flip: of_nat_less_iff)
  then have "int_cast k = int (length input)" using assms(2) by (simp add: int_cast_id)
  then show ?thesis by (simp add: left_space_eq)
qed

lemma length_strip_comment [simp]: "length (strip_comment l) = length l"
  by (simp add: strip_comment_def split: option.splits)

lemma cstr_strip_comment: "cstr (strip_comment l) = line_text l"
  unfolding strip_comment_def line_text_def cstr_def
  by (induction l) (auto split: option.splits)

lemma takeWhile_takeWhile_imp:
  "(\<And>c. P c \<Longrightarrow> Q c) \<Longrightarrow> takeWhile P (takeWhile Q xs) = takeWhile P xs"
  by (induction xs) auto

lemma takeWhile_dropWhile_imp:
  "(\<And>c. P c \<Longrightarrow> Q c) \<Longrightarrow> takeWhile Q (dropWhile P xs) = dropWhile P (takeWhile Q xs)"
  by (induction xs) auto

lemma sep_char_not_NUL: "sep_char c \<Longrightarrow> c \<noteq> NUL"
  by (auto simp: sep_char_def)

lemma takeWhile_sep_cstr: "takeWhile sep_char (cstr p) = takeWhile sep_char p"
  unfolding cstr_def by (rule takeWhile_takeWhile_imp) (rule sep_char_not_NUL)

lemma cstr_dropWhile_sep: "cstr (dropWhile sep_char p) = dropWhile sep_char (cstr p)"
  unfolding cstr_def by (rule takeWhile_dropWhile_imp) (rule sep_char_not_NUL)

lemma deref_cstr [simp]: "deref (cstr p) = deref p"
  by (cases p) (auto simp: deref_def cstr_def)

lemma deref_NUL_iff: "deref p = NUL \<longleftrightarrow> cstr p = []"
  by (cases p) (auto simp: deref_def cstr_def)

lemma cstr_drop: "n \<le> length (cstr p) \<Longrightarrow> cstr (drop n p) = drop n (cstr p)"
  unfolding cstr_def
proof (induction p arbitrary: n)
  case Nil
  then show ?case by simp
next
  case (Cons a p)
  then show ?case by (cases n) (auto split: if_splits)
qed

lemma cstr_skip_sep: "cstr (skip_sep p) = skip_sep (cstr p)"
proof (cases "deref p = CHR ''='' \<or> deref p = CHR '':''")
  case True
  then have "1 \<le> length (cstr p)"
    by (cases p) (auto simp: deref_def cstr_def)
  with True show ?thesis by (simp add: skip_sep_def cstr_drop)
next
  case False
  then show ?thesis by (simp add: skip_sep_def)
qed

lemma trim_loop_take:
  "n \<le> length v \<Longrightarrow>
   take (trim_loop v n) v = rev (dropWhile (\<lambda>c. c = newline \<or> c = blank) (rev (take n v)))"
proof (induction n)
  case 0
  then show ?case by simp
next
  case (Suc n)
  then have t: "take (Suc n) v = take n v @ [v ! n]"
    by (simp add: take_Suc_conv_app_nth)
  show ?case
  proof (cases "v ! n = newline \<or> v ! n = blank")
    case True
    with Suc t show ?thesis by auto
  next
    case False
    with Suc t show ?thesis by auto
  qed
qed

lemma trim_loop_rtrim: "take (trim_loop v (length v)) v = rtrim v"
  by (simp add: trim_loop_take rtrim_def)

lemma of_char_zero_iff: "(of_char a :: nat) = 0 \<longleftrightarrow> a = NUL"
  using of_char_eq_iff [of a NUL, where ?'a = nat] by simp

lemma strncmp_zero_iff:
  "strncmp s1 s2 n = 0 \<longleftrightarrow> take n (cstr s1) = take n (cstr s2)"
proof (induction n arbitrary: s1 s2)
  case 0
  then show ?case by simp
next
  case (Suc n)
  show ?case
  proof (cases s1; cases s2)
  qed (use Suc in \<open>auto simp: deref_def cstr_def of_char_zero_iff\<close>)
qed

lemma take_eq_prefix: "take (length xs) ys = xs \<longleftrightarrow> prefix xs ys"
proof
  assume "take (length xs) ys = xs"
  then have "ys = xs @ drop (length xs) ys" by (metis append_take_drop_id)
  then show "prefix xs ys" unfolding prefix_def by blast
next
  assume "prefix xs ys"
  then show "take (length xs) ys = xs" by (auto simp: prefix_def)
qed

lemma strncmp_prefix:
  "strncmp t name (strlen name) = 0 \<longleftrightarrow> prefix (cstr name) (cstr t)"
  using take_eq_prefix [of "cstr name" "cstr t"]
  by (auto simp: strncmp_zero_iff strlen_def)

lemma cstr_no_NUL: "NUL \<notin> set (cstr p)"
  by (auto simp: cstr_def dest: set_takeWhileD)

lemma cstr_subset: "set (cstr n) \<subseteq> set n"
  unfolding cstr_def by (auto dest: set_takeWhileD)

section \<open>The scan computes the functional description\<close>

lemma leading_space_eq:
  "length line0 < 2 ^ 31 \<Longrightarrow>
   leading_space line0 = length (takeWhile sep_char (strip_comment line0))"
  unfolding leading_space_def by (rule left_space_cast) simp_all

lemma trimmed_ptr_eq:
  "length line0 < 2 ^ 31 \<Longrightarrow> trimmed_ptr line0 = dropWhile sep_char (strip_comment line0)"
  by (simp add: trimmed_ptr_def leading_space_eq flip: dropWhile_eq_drop)

lemma cstr_trimmed_ptr:
  "length line0 < 2 ^ 31 \<Longrightarrow> cstr (trimmed_ptr line0) = dropWhile sep_char (line_text line0)"
  by (simp add: trimmed_ptr_eq cstr_dropWhile_sep cstr_strip_comment)

lemma deref_dropWhile_sep: "\<not> sep_char (deref (dropWhile sep_char p))"
proof (cases "dropWhile sep_char p")
  case Nil
  then have "deref (dropWhile sep_char p) = NUL" by (simp only: deref_def list.case)
  then show ?thesis by (simp only: sep_char_def) simp
next
  case (Cons a r)
  then have "\<not> sep_char a" by (metis hd_dropWhile list.sel(1) list.distinct(1))
  with Cons show ?thesis by (simp add: deref_def)
qed

lemma find_conf_eq:
  "find_conf conf trimmed = find (\<lambda>c. prefix (cstr (mc_name c)) (cstr trimmed)) conf"
  by (induction conf) (simp_all add: strncmp_prefix)

lemma value_str_eq:
  assumes len: "length line0 < 2 ^ 31"
    and pre: "prefix (cstr name) (cstr (trimmed_ptr line0))"
  shows "value_str (strip_comment line0) (int (length line0)) (leading_space line0)
           (trimmed_ptr line0) name
         = value_text (drop (strlen name) (cstr (trimmed_ptr line0)))"
proof -
  define B where "B = strip_comment line0"
  define T where "T = trimmed_ptr line0"
  define n where "n = strlen name"
  define a1 where "a1 = drop n T"
  define a2 where "a2 = dropWhile sep_char a1"
  define a3 where "a3 = skip_sep a2"
  define a4 where "a4 = dropWhile sep_char a3"
  have lenB: "length B = length line0" by (simp add: B_def)
  have sp: "leading_space line0 \<le> length B"
    using len length_takeWhile_le [of sep_char "strip_comment line0"]
    by (simp add: leading_space_eq B_def)
  have lenT: "length T = length B - leading_space line0"
    by (simp add: T_def trimmed_ptr_def B_def)
  have n_le: "n \<le> length (cstr T)"
    using pre by (simp add: n_def strlen_def T_def prefix_length_le)
  have "length (cstr T) \<le> length T" unfolding cstr_def by (rule length_takeWhile_le)
  with n_le have n_le': "n \<le> length T" by simp
  have len_a1: "length a1 = length T - n" by (simp add: a1_def)
  have size1: "int (length line0) - int (leading_space line0) - int n = int (length a1)"
    using sp n_le' lenT lenB len_a1 by simp
  have "length a1 < 2 ^ 31" using len len_a1 lenT lenB by simp
  then have s1: "left_space a1 (int_cast (int (length line0) - int (leading_space line0) - int n))
                 = length (takeWhile sep_char a1)"
    using size1 by (intro left_space_cast) simp_all
  have a2_eq: "drop (length (takeWhile sep_char a1)) a1 = a2"
    by (simp add: a2_def flip: dropWhile_eq_drop)
  have len_a2: "length a2 \<le> length a1" unfolding a2_def by (rule length_dropWhile_le)
  have len_a3: "length a3 \<le> length a2" by (simp add: a3_def skip_sep_def)
  have a3_B: "length a3 \<le> length B" using len_a3 len_a2 len_a1 lenT by simp
  have size2: "int (length line0) - (int (length B) - int (length a3)) = int (length a3)"
    using a3_B lenB by simp
  have "length a3 < 2 ^ 31" using a3_B lenB len by simp
  then have s2: "left_space a3 (int_cast (int (length line0) - (int (length B) - int (length a3))))
                 = length (takeWhile sep_char a3)"
    using size2 by (intro left_space_cast) simp_all
  have a4_eq: "drop (length (takeWhile sep_char a3)) a3 = a4"
    by (simp add: a4_def flip: dropWhile_eq_drop)
  have "value_str B (int (length line0)) (leading_space line0) T name
        = take (trim_loop (cstr a4) (length (cstr a4))) (cstr a4)"
    unfolding value_str_def Let_def
    by (simp only: n_def [symmetric] a1_def [symmetric] s1 a2_eq skip_sep_def [symmetric]
        a3_def [symmetric] s2 a4_eq)
  also have "\<dots> = rtrim (cstr a4)" by (rule trim_loop_rtrim)
  also have "cstr a4 = dropWhile sep_char (skip_sep (dropWhile sep_char (drop n (cstr T))))"
    using n_le by (simp add: a4_def a3_def a2_def a1_def cstr_dropWhile_sep cstr_skip_sep cstr_drop)
  finally show ?thesis by (simp add: value_text_def B_def T_def n_def)
qed

lemma scan_line_eq:
  assumes len: "length line0 < 2 ^ 31"
  shows "scan_line conf line0 = scan_text conf (line_text line0)"
proof -
  let ?t = "dropWhile sep_char (line_text line0)"
  have t: "cstr (trimmed_ptr line0) = ?t" using len by (rule cstr_trimmed_ptr)
  have nl: "deref (trimmed_ptr line0) \<noteq> newline"
    using deref_dropWhile_sep [of "strip_comment line0"] len
    by (auto simp: trimmed_ptr_eq sep_char_def)
  have nul: "deref (trimmed_ptr line0) = NUL \<longleftrightarrow> ?t = []"
    by (simp add: deref_NUL_iff t)
  show ?thesis
  proof (cases "?t = []")
    case True
    then show ?thesis by (simp add: scan_line_def scan_text_def Let_def nul)
  next
    case False
    show ?thesis
    proof (cases "find (\<lambda>c. prefix (cstr (mc_name c)) ?t) conf")
      case None
      with False show ?thesis
        by (simp add: scan_line_def scan_text_def Let_def nul nl find_conf_eq t)
    next
      case (Some c)
      then have "prefix (cstr (mc_name c)) ?t" by (auto simp: find_Some_iff)
      then have "prefix (cstr (mc_name c)) (cstr (trimmed_ptr line0))" by (simp add: t)
      from value_str_eq [OF len this] Some False show ?thesis
        by (simp add: scan_line_def scan_text_def Let_def nul nl find_conf_eq t)
    qed
  qed
qed

lemma value_str_no_NUL: "NUL \<notin> set (value_str line read space trimmed name)"
proof -
  have "\<exists>n p. value_str line read space trimmed name = take n (cstr p)"
    unfolding value_str_def Let_def by blast
  then obtain n p where "value_str line read space trimmed name = take n (cstr p)" by blast
  then show ?thesis using cstr_no_NUL [of p] by (auto dest: in_set_takeD)
qed

lemma scan_line_no_NUL: "scan_line conf line = Some (c, v) \<Longrightarrow> NUL \<notin> set v"
  by (auto simp: scan_line_def Let_def value_str_no_NUL split: if_splits option.splits)

lemma byte_at_NUL_iff: "NUL \<notin> set v \<Longrightarrow> byte_at v k \<noteq> NUL \<longleftrightarrow> k < length v"
  by (auto simp: byte_at_def dest: nth_mem)

lemma process_line_scanned:
  "scan_line conf line = Some (c, v) \<Longrightarrow> process_line L conf line st = store_value L c v st"
  by (simp add: process_line_def)

lemma process_line_not_scanned:
  "scan_line conf line = None \<Longrightarrow> process_line L conf line st = Inr st"
  by (simp add: process_line_def)






section \<open>The switch and the loop over the lines\<close>

lemma store_value_error:
  "store_value L c v st = Inl err \<Longrightarrow> err \<noteq> MICRO_CONF_OK"
  by (auto simp: store_value_def split: MicroConfType.splits if_splits)

lemma process_line_error:
  "process_line L conf line st = Inl err \<Longrightarrow> err \<noteq> MICRO_CONF_OK"
  by (auto simp: process_line_def split: option.splits dest: store_value_error)



lemma parse_lines_append:
  "parse_lines L conf (xs @ ys) st =
     (case parse_lines L conf xs st of
        (MICRO_CONF_OK, st') \<Rightarrow> parse_lines L conf ys st'
      | (err, st') \<Rightarrow> (err, st'))"
proof (induction xs arbitrary: st)
  case Nil
  then show ?case by simp
next
  case (Cons x xs)
  show ?case
  proof (cases "process_line L conf x st")
    case (Inl err)
    then have "err \<noteq> MICRO_CONF_OK" by (rule process_line_error)
    with Inl show ?thesis by (cases err) simp_all
  next
    case (Inr st')
    with Cons show ?thesis by simp
  qed
qed

lemma parse_lines_abort:
  assumes "parse_lines L conf before st = (MICRO_CONF_OK, st1)"
    and "process_line L conf line st1 = Inl err"
  shows "parse_lines L conf (before @ line # after) st = (err, st1)"
  using assms by (simp add: parse_lines_append)

lemma micro_conf_parse_abort:
  assumes "fopen_read L pathname = Some stream"
    and "read_lines stream = before @ line # after"
    and "parse_lines L conf before st = (MICRO_CONF_OK, st1)"
    and "process_line L conf line st1 = Inl err"
  shows "micro_conf_parse L (Some conf) pathname st = (err, st1)"
proof -
  have "err \<noteq> MICRO_CONF_OK" using assms(4) by (rule process_line_error)
  moreover have "parse_lines L conf (read_lines stream) st = (err, st1)"
    using assms by (simp add: parse_lines_abort)
  ultimately show ?thesis using assms(1)
    by (cases err) (simp_all add: micro_conf_parse_def)
qed






section \<open>What strtol consumes\<close>

lemma strtol_end_le: "snd (strtol v) \<le> length v"
proof -
  define s1 where "s1 = dropWhile isspace v"
  define s2 where "s2 = (if deref s1 = CHR ''-'' \<or> deref s1 = CHR ''+'' then drop 1 s1 else s1)"
  have "length s1 \<le> length v" unfolding s1_def by (rule length_dropWhile_le)
  moreover have "length s2 \<le> length s1" by (simp add: s2_def)
  moreover have "length (takeWhile isdigit s2) \<le> length s2" by (rule length_takeWhile_le)
  ultimately have "length v - length s2 + length (takeWhile isdigit s2) \<le> length v" by simp
  then show ?thesis
    by (simp add: strtol_def Let_def s1_def [symmetric] s2_def [symmetric])
qed

lemma isdigit_not_space: "isdigit d \<Longrightarrow> \<not> isspace d"
  by (auto simp: isdigit_def isspace_def)

lemma isdigit_not_sign: "isdigit d \<Longrightarrow> d \<noteq> CHR ''-'' \<and> d \<noteq> CHR ''+''"
  by (auto simp: isdigit_def)

lemma strtol_signed_digits:
  assumes sg: "sg = [] \<or> sg = ''+'' \<or> sg = ''-''"
    and ds: "ds \<noteq> []" "\<forall>d\<in>set ds. isdigit d"
    and g: "g = [] \<or> \<not> isdigit (hd g)"
  shows "strtol (sg @ ds @ g) =
           (if sg = ''-'' then max LONG_MIN (- decimal ds) else min LONG_MAX (decimal ds),
            length sg + length ds)"
proof -
  obtain d ds' where dd: "ds = d # ds'" using ds(1) by (cases ds) auto
  then have d: "isdigit d" using ds(2) by simp
  have tw: "takeWhile isdigit (ds @ g) = ds"
    using ds(2) g by (cases g) (simp_all add: takeWhile_append2)
  have nsp: "\<not> isspace d" and nsg: "d \<noteq> CHR ''-''" "d \<noteq> CHR ''+''"
    using d isdigit_not_space isdigit_not_sign by auto
  have sp: "\<not> isspace CHR ''+''" "\<not> isspace CHR ''-''" by (simp_all add: isspace_def)
  from sg show ?thesis
  proof (elim disjE)
    assume "sg = []"
    then show ?thesis
      using tw ds(1) nsp nsg by (simp add: strtol_def Let_def dd deref_def)
  next
    assume "sg = ''+''"
    then show ?thesis
      using tw ds(1) sp by (simp add: strtol_def Let_def deref_def)
  next
    assume "sg = ''-''"
    then show ?thesis
      using tw ds(1) sp by (simp add: strtol_def Let_def deref_def)
  qed
qed

section \<open>White space in the text of a line\<close>


lemma tail_char_sep: "tail_char c \<Longrightarrow> sep_char c"
  by (auto simp: tail_char_def sep_char_def)




lemma line_text_comment: "line_text (l @ CHR ''#'' # cm) = line_text l"
proof (cases "\<forall>x\<in>set l. x \<noteq> NUL \<and> x \<noteq> CHR ''#''")
  case True
  then have "takeWhile (\<lambda>c. c \<noteq> NUL \<and> c \<noteq> CHR ''#'') l = l" by simp
  moreover have "takeWhile (\<lambda>c. c \<noteq> NUL \<and> c \<noteq> CHR ''#'') (l @ CHR ''#'' # cm) = l"
    using True by (subst takeWhile_append2) auto
  ultimately show ?thesis by (simp only: line_text_def)
next
  case False
  then obtain x where "x \<in> set l" "\<not> (x \<noteq> NUL \<and> x \<noteq> CHR ''#'')" by blast
  then have "takeWhile (\<lambda>c. c \<noteq> NUL \<and> c \<noteq> CHR ''#'') (l @ CHR ''#'' # cm)
             = takeWhile (\<lambda>c. c \<noteq> NUL \<and> c \<noteq> CHR ''#'') l"
    by (rule takeWhile_append1)
  then show ?thesis by (simp only: line_text_def)
qed






lemma rtrim_tail: "(\<And>ch. ch \<in> set T \<Longrightarrow> tail_char ch) \<Longrightarrow> rtrim (X @ T) = rtrim X"
proof -
  assume t: "\<And>ch. ch \<in> set T \<Longrightarrow> tail_char ch"
  have "dropWhile (\<lambda>c. c = newline \<or> c = blank) (rev T @ rev X)
        = dropWhile (\<lambda>c. c = newline \<or> c = blank) (rev X)"
    by (rule dropWhile_append2) (use t in \<open>auto simp: tail_char_def\<close>)
  then show ?thesis by (simp add: rtrim_def)
qed

lemma dropWhile_sep_all: "(\<And>ch. ch \<in> set w \<Longrightarrow> sep_char ch) \<Longrightarrow> dropWhile sep_char (w @ X) = dropWhile sep_char X"
  by (rule dropWhile_append2) blast

lemma rtrim_dropWhile_tail:
  assumes "\<And>ch. ch \<in> set T \<Longrightarrow> tail_char ch"
  shows "rtrim (dropWhile sep_char (X @ T)) = rtrim (dropWhile sep_char X)"
proof (cases "\<forall>ch\<in>set X. sep_char ch")
  case True
  then have "dropWhile sep_char (X @ T) = dropWhile sep_char T" by (intro dropWhile_sep_all) blast
  also have "\<dots> = []" using assms by (auto dest: tail_char_sep)
  finally have a: "dropWhile sep_char (X @ T) = []" .
  have b: "dropWhile sep_char X = []" using True by simp
  show ?thesis by (simp only: a b)
next
  case False
  then obtain x where "x \<in> set X" "\<not> sep_char x" by blast
  then have "dropWhile sep_char (X @ T) = dropWhile sep_char X @ T"
    by (rule dropWhile_append1)
  then show ?thesis using assms by (simp add: rtrim_tail)
qed

lemma skip_sep_Nil [simp]: "skip_sep [] = []"
  by (simp add: skip_sep_def)

lemma skip_sep_append: "Z \<noteq> [] \<Longrightarrow> skip_sep (Z @ T) = skip_sep Z @ T"
  by (cases Z) (auto simp: skip_sep_def deref_def)

lemma value_text_tail:
  assumes "\<And>ch. ch \<in> set T \<Longrightarrow> tail_char ch"
  shows "value_text (X @ T) = value_text X"
proof (cases "\<forall>ch\<in>set X. sep_char ch")
  case True
  then have "dropWhile sep_char (X @ T) = dropWhile sep_char T" by (intro dropWhile_sep_all) blast
  also have "\<dots> = []" using assms by (auto dest: tail_char_sep)
  finally have a: "dropWhile sep_char (X @ T) = []" .
  have b: "dropWhile sep_char X = []" using True by simp
  show ?thesis by (simp only: value_text_def a b)
next
  case False
  then obtain x where x: "x \<in> set X" "\<not> sep_char x" by blast
  then have d: "dropWhile sep_char (X @ T) = dropWhile sep_char X @ T"
    by (rule dropWhile_append1)
  have "dropWhile sep_char X \<noteq> []" using x by auto
  then have "skip_sep (dropWhile sep_char X @ T) = skip_sep (dropWhile sep_char X) @ T"
    by (rule skip_sep_append)
  with d show ?thesis using assms by (simp add: value_text_def rtrim_dropWhile_tail)
qed








lemma keeps_keys_append: "keeps_keys W X Y \<Longrightarrow> keeps_keys W (A @ X) (A @ Y)"
  unfolding keeps_keys_def
proof (intro allI impI)
  fix n
  assume k: "\<forall>n. (\<forall>ch\<in>set n. \<not> W ch) \<longrightarrow> prefix n X \<longrightarrow> prefix n Y"
    and f: "\<forall>ch\<in>set n. \<not> W ch" and p: "prefix n (A @ X)"
  from p consider "prefix n A" | us where "n = A @ us" "prefix us X"
    by (auto simp: prefix_append)
  then show "prefix n (A @ Y)"
  proof cases
    case 1
    then show ?thesis by simp
  next
    case 2
    then have "\<forall>ch\<in>set us. \<not> W ch" using f by simp
    with k 2 have "prefix us Y" by blast
    with 2 show ?thesis by simp
  qed
qed

lemma keeps_keys_ws:
  assumes "w \<noteq> []" "\<And>ch. ch \<in> set w \<Longrightarrow> W ch"
  shows "keeps_keys W (w @ X) Z"
  unfolding keeps_keys_def
proof (intro allI impI)
  fix n
  assume f: "\<forall>ch\<in>set n. \<not> W ch" and p: "prefix n (w @ X)"
  obtain a w' where w: "w = a # w'" using assms(1) by (cases w) auto
  then have a: "W a" using assms(2) by simp
  have "n = []"
  proof (cases n)
    case Nil
    then show ?thesis .
  next
    case (Cons b n')
    with p w have "b = a" by simp
    with Cons f a show ?thesis by simp
  qed
  then show "prefix n Z" by simp
qed






lemma scan_text_tails:
  assumes T1: "\<forall>ch\<in>set T1. tail_char ch" and T2: "\<forall>ch\<in>set T2. tail_char ch"
    and X: "X \<noteq> []" "\<not> sep_char (hd X)"
    and kk: "\<And>b. b \<in> set conf \<Longrightarrow>
               prefix (cstr (mc_name b)) (X @ T1) \<or> prefix (cstr (mc_name b)) (X @ T2) \<Longrightarrow>
               prefix (cstr (mc_name b)) X"
  shows "scan_text conf (X @ T1) = scan_text conf (X @ T2)"
proof -
  obtain a X' where Xc: "X = a # X'" using X(1) by (cases X) blast+
  then have "\<not> sep_char a" using X(2) by simp
  then have d: "dropWhile sep_char (X @ T) = X @ T" for T
    by (simp add: Xc)
  have eq: "prefix (cstr (mc_name b)) (X @ T1) = prefix (cstr (mc_name b)) (X @ T2)"
    if b: "b \<in> set conf" for b
  proof (cases "prefix (cstr (mc_name b)) X")
    case True
    then show ?thesis by simp
  next
    case False
    with kk [OF b] show ?thesis by blast
  qed
  have f: "find (\<lambda>b. prefix (cstr (mc_name b)) (X @ T1)) conf
                = find (\<lambda>b. prefix (cstr (mc_name b)) (X @ T2)) conf"
    by (rule find_cong) (simp_all add: eq)
  show ?thesis
  proof (cases "find (\<lambda>b. prefix (cstr (mc_name b)) (X @ T1)) conf")
    case None
    with f show ?thesis using X(1) by (simp add: scan_text_def Let_def d)
  next
    case (Some c)
    then have c: "c \<in> set conf" "prefix (cstr (mc_name c)) (X @ T1)"
      by (auto simp: find_Some_iff)
    then have "prefix (cstr (mc_name c)) X" using kk by blast
    then have "strlen (mc_name c) \<le> length X" by (simp add: strlen_def prefix_length_le)
    then have dr: "drop (strlen (mc_name c)) (X @ T) = drop (strlen (mc_name c)) X @ T" for T
      by simp
    have "value_text (drop (strlen (mc_name c)) X @ T1) = value_text (drop (strlen (mc_name c)) X)"
      by (rule value_text_tail) (use T1 in blast)
    moreover
    have "value_text (drop (strlen (mc_name c)) X @ T2) = value_text (drop (strlen (mc_name c)) X)"
      by (rule value_text_tail) (use T2 in blast)
    ultimately have "value_text (drop (strlen (mc_name c)) (X @ T1))
          = value_text (drop (strlen (mc_name c)) (X @ T2))"
      by (simp only: dr)
    with Some f show ?thesis using X(1) by (simp add: scan_text_def Let_def d)
  qed
qed

lemma prefix_before_blank:
  assumes "\<forall>ch\<in>set n. ch \<noteq> blank" "prefix n (A @ blank # B)"
  shows "prefix n A"
proof -
  have "keeps_keys (\<lambda>c. c = blank) ([blank] @ B) []"
    by (rule keeps_keys_ws) simp_all
  then have "keeps_keys (\<lambda>c. c = blank) (A @ [blank] @ B) (A @ [])"
    by (rule keeps_keys_append)
  with assms show ?thesis by (simp add: keeps_keys_def)
qed

lemma scan_text_blank:
  assumes "\<forall>ch\<in>set l. sep_char ch"
  shows "scan_text conf (line_text l) = None"
proof -
  have "set (line_text l) \<subseteq> set l" unfolding line_text_def by (auto dest: set_takeWhileD)
  with assms have "dropWhile sep_char (line_text l) = []" by auto
  then show ?thesis by (simp add: scan_text_def)
qed


section \<open>The example inputs, evaluated\<close>

lemma scan_x1: "scan_line example_conf line_x1 = Some (binding MICRO_CONF_INT 0 ''x'', ''1'')"
  by code_simp


lemma scan_flag_maybe:
  "scan_line example_conf line_flag_maybe = Some (binding MICRO_CONF_BOOL 1 ''flag'', ''maybe'')"
  by code_simp

lemma scan_flag_true:
  "scan_line example_conf line_flag_true = Some (binding MICRO_CONF_BOOL 1 ''flag'', ''true'')"
  by code_simp

lemma scan_x12abc:
  "scan_line example_conf line_x12abc = Some (binding MICRO_CONF_INT 0 ''x'', ''12abc'')"
  by code_simp

lemma scan_x_neg42:
  "scan_line example_conf line_x_neg42 = Some (binding MICRO_CONF_INT 0 ''x'', ''-42'')"
  by code_simp

lemma scan_x_empty:
  "scan_line example_conf line_x_empty = Some (binding MICRO_CONF_INT 0 ''x'', [])"
  by code_simp

lemma scan_flag_empty:
  "scan_line example_conf line_flag_empty = Some (binding MICRO_CONF_BOOL 1 ''flag'', [])"
  by code_simp



lemma scan_x_5_sp:
  "scan_line example_conf ''x = 5 '' = Some (binding MICRO_CONF_INT 0 ''x'', ''5'')"
  by code_simp


lemma scan_key_5:
  "scan_line key_conf (''key = 5'' @ [newline]) = Some (binding MICRO_CONF_INT 0 ''key'', ''5'')"
  by code_simp



lemma scan_x_7_colon:
  "scan_line example_conf (''x: 7'' @ [newline]) = Some (binding MICRO_CONF_INT 0 ''x'', ''7'')"
  by code_simp



lemma strtol_1: "strtol ''1'' = (1, 1)"
  by code_simp


lemma strtol_5: "strtol ''5'' = (5, 1)"
  by code_simp



lemma store_int_x:
  "strtol v = (k, length v) \<Longrightarrow>
   store_value L (binding MICRO_CONF_INT a n) v st = Inr (st(a := VInt (word_of_int k)))"
  by (simp add: store_value_def binding_def byte_at_def)


lemma process_x1: "process_line L example_conf line_x1 st = Inr (st(0 := VInt 1))"
  by (simp add: process_line_scanned [OF scan_x1] store_value_def binding_def strtol_1 byte_at_def)

lemma parse_x1: "parse_lines L example_conf [line_x1] st = (MICRO_CONF_OK, st(0 := VInt 1))"
  by (simp add: process_x1)

lemma process_flag_maybe:
  "process_line L example_conf line_flag_maybe st = Inl MICRO_CONF_ERROR_INVALID_BOOL"
  by (simp add: process_line_scanned [OF scan_flag_maybe] store_value_def binding_def)


lemma upd_neq_addr: "a \<noteq> b \<Longrightarrow> st a \<noteq> x \<Longrightarrow> st(a := x) \<noteq> st(b := y)"
  by (metis fun_upd_other fun_upd_same)

lemma scan_comment_a:
  "scan_line comment_conf (''key = 5 # comment'' @ [newline])
     = Some (binding MICRO_CONF_INT 0 ''key = 5 '', [])"
  by code_simp

lemma scan_comment_b:
  "scan_line comment_conf (''key = 5'' @ [newline]) = Some (binding MICRO_CONF_INT 1 ''key'', ''5'')"
  by code_simp

lemma strtol_empty: "strtol [] = (0, 0)"
  by code_simp




lemma scan_x_1_sp: "scan_line example_conf '' x = 1 '' = Some (binding MICRO_CONF_INT 0 ''x'', ''1'')"
  by code_simp

text \<open>
  Lines of \<open>2 ^ 31\<close> bytes and more: the sizes that \<open>left_space\<close> receives are negative
  after the cast, so it skips nothing.
\<close>

lemma length_long_comment_line: "length long_comment_line = 2 ^ 31"
  by (simp add: long_comment_line_def)

lemma strip_long_comment_line:
  "strip_comment long_comment_line = '' x = 1 '' @ NUL # replicate (2 ^ 31 - 8) CHR ''c''"
  by (simp add: long_comment_line_def strip_comment_def)

lemma scan_long_comment_line: "scan_line example_conf long_comment_line = None"
  by (simp add: scan_line_def Let_def leading_space_def trimmed_ptr_def length_long_comment_line
      strip_long_comment_line int_cast_def left_space_negative deref_def example_conf_def
      binding_def strlen_def cstr_def)





















text \<open>
  The scenario of the specification: the file with the lines \<open>a = 69\<close> and
  \<open>b: hello world   # greeting\<close> is parsed without error, the Int destination receives
  69 and the String destination \<open>hello world\<close>.
\<close>

lemma scenario_lines:
  "read_lines (scenario_line1 @ scenario_line2) = [scenario_line1, scenario_line2]"
  by code_simp

lemma scan_scenario1:
  "scan_line scenario_conf scenario_line1 = Some (binding MICRO_CONF_INT 0 ''a'', ''69'')"
  by code_simp

lemma scan_scenario2:
  "scan_line scenario_conf scenario_line2 = Some (binding MICRO_CONF_STR 1 ''b'', ''hello world'')"
  by code_simp

lemma strtol_69: "strtol ''69'' = (69, 2)"
  by code_simp

lemma end_to_end_scenario:
  "micro_conf_parse (example_libc (scenario_line1 @ scenario_line2)) (Some scenario_conf)
       ''micro.conf'' defaults
     = (MICRO_CONF_OK, defaults(0 := VInt 69, 1 := VStr ''hello world''))"
proof -
  have p1: "process_line L scenario_conf scenario_line1 st = Inr (st(0 := VInt 69))" for L st
    by (simp add: process_line_scanned [OF scan_scenario1] store_int_x strtol_69)
  have p2: "process_line L scenario_conf scenario_line2 st = Inr (st(1 := VStr ''hello world''))"
    for L st
    by (simp add: process_line_scanned [OF scan_scenario2] store_value_def binding_def)
  show ?thesis
    by (simp add: micro_conf_parse_def example_libc_def scenario_lines p1 p2)
qed

section \<open>White space around the key and the value\<close>




section \<open>The first error ends the call\<close>

text \<open>
  C2. When the lines before \<open>line\<close> are processed without error and \<open>line\<close> fails, the
  call returns the error of \<open>line\<close>, whatever the lines after it are, and the memory is
  the one the earlier lines left: their writes are kept. The error is the one the
  conversion of the value string of \<open>line\<close> gave.
\<close>

theorem first_error_aborts:
  assumes "fopen_read L pathname = Some stream"
    and "read_lines stream = before @ line # after"
    and "parse_lines L conf before st = (MICRO_CONF_OK, st1)"
    and "process_line L conf line st1 = Inl err"
  shows "micro_conf_parse L (Some conf) pathname st = (err, st1) \<and>
         (\<exists>c v. scan_line conf line = Some (c, v) \<and> store_value L c v st1 = Inl err)"
proof
  show "micro_conf_parse L (Some conf) pathname st = (err, st1)"
    using assms by (rule micro_conf_parse_abort)
  show "\<exists>c v. scan_line conf line = Some (c, v) \<and> store_value L c v st1 = Inl err"
    using assms(4) by (auto simp: process_line_def split: option.splits)
qed

theorem first_error_aborts_witness:
  "fopen_read (example_libc (line_x1 @ line_flag_maybe @ line_x3)) ''micro.conf''
     = Some (line_x1 @ line_flag_maybe @ line_x3) \<and>
   read_lines (line_x1 @ line_flag_maybe @ line_x3) = [line_x1] @ line_flag_maybe # [line_x3] \<and>
   parse_lines (example_libc (line_x1 @ line_flag_maybe @ line_x3)) example_conf [line_x1] defaults
     = (MICRO_CONF_OK, defaults(0 := VInt 1)) \<and>
   process_line (example_libc (line_x1 @ line_flag_maybe @ line_x3)) example_conf line_flag_maybe
       (defaults(0 := VInt 1))
     = Inl MICRO_CONF_ERROR_INVALID_BOOL \<and>
   micro_conf_parse (example_libc (line_x1 @ line_flag_maybe @ line_x3)) (Some example_conf)
       ''micro.conf'' defaults
     = (MICRO_CONF_ERROR_INVALID_BOOL, defaults(0 := VInt 1))"
proof -
  let ?S = "line_x1 @ line_flag_maybe @ line_x3"
  have h1: "fopen_read (example_libc ?S) ''micro.conf'' = Some ?S"
    by (simp add: example_libc_def)
  have h2: "read_lines ?S = [line_x1] @ line_flag_maybe # [line_x3]"
    by code_simp
  have h3: "parse_lines (example_libc ?S) example_conf [line_x1] defaults
              = (MICRO_CONF_OK, defaults(0 := VInt 1))"
    by (rule parse_x1)
  have h4: "process_line (example_libc ?S) example_conf line_flag_maybe (defaults(0 := VInt 1))
              = Inl MICRO_CONF_ERROR_INVALID_BOOL"
    by (rule process_flag_maybe)
  from first_error_aborts [OF h1 h2 h3 h4] h1 h2 h3 h4 show ?thesis by blast
qed

section \<open>Int values\<close>

text \<open>
  C3. For a line matched by an Int binding with value string \<open>v\<close>: the line succeeds exactly
  when \<open>strtol\<close> consumes all of \<open>v\<close>, and then the destination receives the value
  converted to \<open>int\<close>; an optionally signed string of decimal digits is read in base 10;
  and when the digits are followed by anything that is not a digit, the call returns
  \<open>MICRO_CONF_ERROR_INVALID_INT\<close> with the memory as the earlier lines left it, so the
  destination is not written by that line.
\<close>

theorem int_value_strict:
  assumes fo: "fopen_read L pathname = Some stream"
    and rl: "read_lines stream = before @ line # after"
    and pl: "parse_lines L conf before st = (MICRO_CONF_OK, st1)"
    and scan: "scan_line conf line = Some (c, v)"
    and ty: "mc_type c = MICRO_CONF_INT"
  shows "process_line L conf line st1 =
           (if snd (strtol v) = length v
            then Inr (st1(mc_value c := VInt (word_of_int (fst (strtol v)))))
            else Inl MICRO_CONF_ERROR_INVALID_INT)
       \<and> (\<forall>sg ds. v = sg @ ds \<and> (sg = [] \<or> sg = ''+'' \<or> sg = ''-'') \<and> ds \<noteq> [] \<and>
              (\<forall>d\<in>set ds. isdigit d) \<longrightarrow>
            process_line L conf line st1 =
              Inr (st1(mc_value c := VInt (word_of_int
                (if sg = ''-'' then max LONG_MIN (- decimal ds) else min LONG_MAX (decimal ds))))))
       \<and> (\<forall>sg ds g. v = sg @ ds @ g \<and> (sg = [] \<or> sg = ''+'' \<or> sg = ''-'') \<and> ds \<noteq> [] \<and>
              (\<forall>d\<in>set ds. isdigit d) \<and> g \<noteq> [] \<and> \<not> isdigit (hd g) \<longrightarrow>
            micro_conf_parse L (Some conf) pathname st = (MICRO_CONF_ERROR_INVALID_INT, st1))"
proof -
  have nn: "NUL \<notin> set v" using scan by (rule scan_line_no_NUL)
  have pr: "process_line L conf line st1 =
           (if snd (strtol v) = length v
            then Inr (st1(mc_value c := VInt (word_of_int (fst (strtol v)))))
            else Inl MICRO_CONF_ERROR_INVALID_INT)"
    using strtol_end_le [of v]
    by (auto simp: process_line_scanned [OF scan] store_value_def ty byte_at_NUL_iff [OF nn])
  have digits: "process_line L conf line st1 =
              Inr (st1(mc_value c := VInt (word_of_int
                (if sg = ''-'' then max LONG_MIN (- decimal ds) else min LONG_MAX (decimal ds)))))"
    if "v = sg @ ds" "sg = [] \<or> sg = ''+'' \<or> sg = ''-''" "ds \<noteq> []" "\<forall>d\<in>set ds. isdigit d"
    for sg ds
  proof -
    have "strtol v = (if sg = ''-'' then max LONG_MIN (- decimal ds) else min LONG_MAX (decimal ds),
            length sg + length ds)"
      using strtol_signed_digits [of sg ds "[]"] that by simp
    then show ?thesis using that(1) by (simp add: pr)
  qed
  have garbage: "micro_conf_parse L (Some conf) pathname st = (MICRO_CONF_ERROR_INVALID_INT, st1)"
    if "v = sg @ ds @ g" "sg = [] \<or> sg = ''+'' \<or> sg = ''-''" "ds \<noteq> []" "\<forall>d\<in>set ds. isdigit d"
       "g \<noteq> []" "\<not> isdigit (hd g)"
    for sg ds g
  proof -
    have "snd (strtol v) = length sg + length ds"
      using strtol_signed_digits [of sg ds g] that by simp
    then have "snd (strtol v) \<noteq> length v" using that(1,5) by simp
    then have "process_line L conf line st1 = Inl MICRO_CONF_ERROR_INVALID_INT"
      by (simp add: pr)
    with fo rl pl show ?thesis by (rule micro_conf_parse_abort)
  qed
  from pr digits garbage show ?thesis by blast
qed

theorem int_value_strict_witness:
  "fopen_read (example_libc (line_x1 @ line_x12abc @ line_x3)) ''micro.conf''
     = Some (line_x1 @ line_x12abc @ line_x3) \<and>
   read_lines (line_x1 @ line_x12abc @ line_x3) = [line_x1] @ line_x12abc # [line_x3] \<and>
   parse_lines (example_libc (line_x1 @ line_x12abc @ line_x3)) example_conf [line_x1] defaults
     = (MICRO_CONF_OK, defaults(0 := VInt 1)) \<and>
   scan_line example_conf line_x12abc = Some (binding MICRO_CONF_INT 0 ''x'', ''12'' @ ''abc'') \<and>
   mc_type (binding MICRO_CONF_INT 0 ''x'') = MICRO_CONF_INT \<and>
   micro_conf_parse (example_libc (line_x1 @ line_x12abc @ line_x3)) (Some example_conf)
       ''micro.conf'' defaults
     = (MICRO_CONF_ERROR_INVALID_INT, defaults(0 := VInt 1)) \<and>
   read_lines (line_x1 @ line_x_neg42) = [line_x1] @ line_x_neg42 # [] \<and>
   scan_line example_conf line_x_neg42 = Some (binding MICRO_CONF_INT 0 ''x'', ''-'' @ ''42'') \<and>
   process_line (example_libc (line_x1 @ line_x_neg42)) example_conf line_x_neg42
       (defaults(0 := VInt 1))
     = Inr (defaults(0 := VInt (- 42)))"
proof -
  let ?S = "line_x1 @ line_x12abc @ line_x3"
  let ?T = "line_x1 @ line_x_neg42"
  have h1: "fopen_read (example_libc ?S) ''micro.conf'' = Some ?S"
    by (simp add: example_libc_def)
  have h2: "read_lines ?S = [line_x1] @ line_x12abc # [line_x3]"
    by code_simp
  have h3: "parse_lines (example_libc ?S) example_conf [line_x1] defaults
              = (MICRO_CONF_OK, defaults(0 := VInt 1))"
    by (rule parse_x1)
  have h4: "scan_line example_conf line_x12abc = Some (binding MICRO_CONF_INT 0 ''x'', ''12abc'')"
    by (rule scan_x12abc)
  have h5: "mc_type (binding MICRO_CONF_INT 0 ''x'') = MICRO_CONF_INT"
    by (simp add: binding_def)
  have dg: "''12abc'' = [] @ ''12'' @ ''abc'' \<and> ([] = [] \<or> [] = ''+'' \<or> [] = ''-'') \<and> ''12'' \<noteq> [] \<and>
            (\<forall>d\<in>set ''12''. isdigit d) \<and> ''abc'' \<noteq> [] \<and> \<not> isdigit (hd ''abc'')"
    by (simp add: isdigit_def)
  note t = int_value_strict [OF h1 h2 h3 h4 h5]
  from t [THEN conjunct2, THEN conjunct2] dg
  have a: "micro_conf_parse (example_libc ?S) (Some example_conf) ''micro.conf'' defaults
              = (MICRO_CONF_ERROR_INVALID_INT, defaults(0 := VInt 1))"
    by blast
  have k1: "fopen_read (example_libc ?T) ''micro.conf'' = Some ?T"
    by (simp add: example_libc_def)
  have k2: "read_lines ?T = [line_x1] @ line_x_neg42 # []"
    by code_simp
  have k3: "parse_lines (example_libc ?T) example_conf [line_x1] defaults
              = (MICRO_CONF_OK, defaults(0 := VInt 1))"
    by (rule parse_x1)
  have dn: "''-42'' = ''-'' @ ''42'' \<and> (''-'' = [] \<or> ''-'' = ''+'' \<or> ''-'' = ''-'') \<and> ''42'' \<noteq> [] \<and>
            (\<forall>d\<in>set ''42''. isdigit d)"
    by (simp add: isdigit_def)
  note u = int_value_strict [OF k1 k2 k3 scan_x_neg42 h5]
  from u [THEN conjunct2, THEN conjunct1] dn
  have "process_line (example_libc ?T) example_conf line_x_neg42 (defaults(0 := VInt 1))
          = Inr ((defaults(0 := VInt 1))(mc_value (binding MICRO_CONF_INT 0 ''x'') := VInt (word_of_int
                (if ''-'' = ''-'' then max LONG_MIN (- decimal ''42'')
                 else min LONG_MAX (decimal ''42'')))))"
    by blast
  then have b: "process_line (example_libc ?T) example_conf line_x_neg42 (defaults(0 := VInt 1))
          = Inr (defaults(0 := VInt (- 42)))"
    by (simp add: binding_def decimal_def LONG_MIN_def)
  from a b h1 h2 h3 h4 h5 k2 scan_x_neg42 show ?thesis by simp
qed

section \<open>Bool values\<close>

text \<open>
  C4. For a line matched by a Bool binding with value string \<open>v\<close>: \<open>true\<close> and \<open>1\<close> write
  true, \<open>false\<close> and \<open>0\<close> write false, and every other value string makes the call return
  \<open>MICRO_CONF_ERROR_INVALID_BOOL\<close>.
\<close>

theorem bool_values:
  assumes fo: "fopen_read L pathname = Some stream"
    and rl: "read_lines stream = before @ line # after"
    and pl: "parse_lines L conf before st = (MICRO_CONF_OK, st1)"
    and scan: "scan_line conf line = Some (c, v)"
    and ty: "mc_type c = MICRO_CONF_BOOL"
  shows "(v = ''true'' \<or> v = ''1'' \<longrightarrow>
            process_line L conf line st1 = Inr (st1(mc_value c := VBool True)))
       \<and> (v = ''false'' \<or> v = ''0'' \<longrightarrow>
            process_line L conf line st1 = Inr (st1(mc_value c := VBool False)))
       \<and> (v \<noteq> ''true'' \<and> v \<noteq> ''1'' \<and> v \<noteq> ''false'' \<and> v \<noteq> ''0'' \<longrightarrow>
            micro_conf_parse L (Some conf) pathname st = (MICRO_CONF_ERROR_INVALID_BOOL, st1))"
proof (intro conjI impI)
  assume "v = ''true'' \<or> v = ''1''"
  then show "process_line L conf line st1 = Inr (st1(mc_value c := VBool True))"
    by (auto simp: process_line_scanned [OF scan] store_value_def ty)
next
  assume "v = ''false'' \<or> v = ''0''"
  then show "process_line L conf line st1 = Inr (st1(mc_value c := VBool False))"
    by (auto simp: process_line_scanned [OF scan] store_value_def ty)
next
  assume "v \<noteq> ''true'' \<and> v \<noteq> ''1'' \<and> v \<noteq> ''false'' \<and> v \<noteq> ''0''"
  then have "process_line L conf line st1 = Inl MICRO_CONF_ERROR_INVALID_BOOL"
    by (simp add: process_line_scanned [OF scan] store_value_def ty)
  with fo rl pl show "micro_conf_parse L (Some conf) pathname st = (MICRO_CONF_ERROR_INVALID_BOOL, st1)"
    by (rule micro_conf_parse_abort)
qed

theorem bool_values_witness:
  "fopen_read (example_libc (line_x1 @ line_flag_maybe @ line_x3)) ''micro.conf''
     = Some (line_x1 @ line_flag_maybe @ line_x3) \<and>
   read_lines (line_x1 @ line_flag_maybe @ line_x3) = [line_x1] @ line_flag_maybe # [line_x3] \<and>
   parse_lines (example_libc (line_x1 @ line_flag_maybe @ line_x3)) example_conf [line_x1] defaults
     = (MICRO_CONF_OK, defaults(0 := VInt 1)) \<and>
   scan_line example_conf line_flag_maybe = Some (binding MICRO_CONF_BOOL 1 ''flag'', ''maybe'') \<and>
   mc_type (binding MICRO_CONF_BOOL 1 ''flag'') = MICRO_CONF_BOOL \<and>
   micro_conf_parse (example_libc (line_x1 @ line_flag_maybe @ line_x3)) (Some example_conf)
       ''micro.conf'' defaults
     = (MICRO_CONF_ERROR_INVALID_BOOL, defaults(0 := VInt 1)) \<and>
   fopen_read (example_libc (line_x1 @ line_flag_true)) ''micro.conf''
     = Some (line_x1 @ line_flag_true) \<and>
   read_lines (line_x1 @ line_flag_true) = [line_x1] @ line_flag_true # [] \<and>
   scan_line example_conf line_flag_true = Some (binding MICRO_CONF_BOOL 1 ''flag'', ''true'') \<and>
   process_line (example_libc (line_x1 @ line_flag_true)) example_conf line_flag_true
       (defaults(0 := VInt 1))
     = Inr (defaults(0 := VInt 1, 1 := VBool True))"
proof -
  let ?S = "line_x1 @ line_flag_maybe @ line_x3"
  let ?T = "line_x1 @ line_flag_true"
  have h1: "fopen_read (example_libc ?S) ''micro.conf'' = Some ?S"
    by (simp add: example_libc_def)
  have h2: "read_lines ?S = [line_x1] @ line_flag_maybe # [line_x3]"
    by code_simp
  have h3: "parse_lines (example_libc ?S) example_conf [line_x1] defaults
              = (MICRO_CONF_OK, defaults(0 := VInt 1))"
    by (rule parse_x1)
  have h5: "mc_type (binding MICRO_CONF_BOOL 1 ''flag'') = MICRO_CONF_BOOL"
    by (simp add: binding_def)
  have k1: "fopen_read (example_libc ?T) ''micro.conf'' = Some ?T"
    by (simp add: example_libc_def)
  have k2: "read_lines ?T = [line_x1] @ line_flag_true # []"
    by code_simp
  have k3: "parse_lines (example_libc ?T) example_conf [line_x1] defaults
              = (MICRO_CONF_OK, defaults(0 := VInt 1))"
    by (rule parse_x1)
  have a: "micro_conf_parse (example_libc ?S) (Some example_conf) ''micro.conf'' defaults
             = (MICRO_CONF_ERROR_INVALID_BOOL, defaults(0 := VInt 1))"
    using bool_values [OF h1 h2 h3 scan_flag_maybe h5] by simp
  have b: "process_line (example_libc ?T) example_conf line_flag_true (defaults(0 := VInt 1))
             = Inr (defaults(0 := VInt 1, 1 := VBool True))"
    using bool_values [OF k1 k2 k3 scan_flag_true h5] by (simp add: binding_def)
  from a b h1 h2 h3 h5 k1 k2 scan_flag_maybe scan_flag_true show ?thesis by simp
qed

section \<open>Lines that match no key\<close>



section \<open>The binding a line selects\<close>



section \<open>Comments\<close>

text \<open>
  C7. For a line of fewer than \<open>2 ^ 31\<close> bytes (lengths that the \<open>int\<close> casts of the source
  keep): the text from the first \<open>#\<close> on is discarded before the key is matched, so the
  line yields the same binding and value string, and the same result, as the text
  before the \<open>#\<close>; a line that holds only white space before its comment, or only white
  space, yields no candidate and is skipped; and, when no key contains a blank, the line
  \<open>key = 5 # comment\<close> gives the same result as the line \<open>key = 5\<close>.
\<close>

theorem comment_stripped:
  assumes len: "length (l @ CHR ''#'' # cm) < 2 ^ 31"
  shows "scan_line conf (l @ CHR ''#'' # cm) = scan_line conf l
       \<and> process_line L conf (l @ CHR ''#'' # cm) st = process_line L conf l st
       \<and> ((\<forall>ch\<in>set l. ch = blank \<or> ch = tab \<or> ch = newline) \<longrightarrow>
            scan_line conf (l @ CHR ''#'' # cm) = None \<and> scan_line conf l = None \<and>
            process_line L conf (l @ CHR ''#'' # cm) st = Inr st)
       \<and> ((\<forall>b\<in>set conf. blank \<notin> set (mc_name b)) \<and> (nl = [] \<or> nl = [newline]) \<longrightarrow>
            process_line L conf (''key = 5 # comment'' @ nl) st
              = process_line L conf (''key = 5'' @ nl) st)"
proof (intro conjI impI)
  have len_l: "length l < 2 ^ 31" using len by simp
  show s: "scan_line conf (l @ CHR ''#'' # cm) = scan_line conf l"
    by (simp add: scan_line_eq [OF len] scan_line_eq [OF len_l] line_text_comment)
  then show "process_line L conf (l @ CHR ''#'' # cm) st = process_line L conf l st"
    by (simp add: process_line_def)
  {
    assume "\<forall>ch\<in>set l. ch = blank \<or> ch = tab \<or> ch = newline"
    then have "\<forall>ch\<in>set l. sep_char ch" by (auto simp: sep_char_def)
    then have n: "scan_line conf l = None"
      by (simp add: scan_line_eq [OF len_l] scan_text_blank)
    then show "scan_line conf l = None" .
    from n s show "scan_line conf (l @ CHR ''#'' # cm) = None" by simp
    then show "process_line L conf (l @ CHR ''#'' # cm) st = Inr st"
      by (simp add: process_line_def)
  }
next
  assume a: "(\<forall>b\<in>set conf. blank \<notin> set (mc_name b)) \<and> (nl = [] \<or> nl = [newline])"
  have la: "length (''key = 5 # comment'' @ nl) < 2 ^ 31" and lb: "length (''key = 5'' @ nl) < 2 ^ 31"
    using a by auto
  have ta: "line_text (''key = 5 # comment'' @ nl) = ''key = 5'' @ [blank]"
    by (simp add: line_text_def)
  have tb: "line_text (''key = 5'' @ nl) = ''key = 5'' @ nl"
    using a by (auto simp: line_text_def)
  have "scan_text conf (''key = 5'' @ [blank]) = scan_text conf (''key = 5'' @ nl)"
  proof (rule scan_text_tails)
    show "\<forall>ch\<in>set [blank]. tail_char ch" by (simp add: tail_char_def)
    show "\<forall>ch\<in>set nl. tail_char ch" using a by (auto simp: tail_char_def)
    show "''key = 5'' \<noteq> []" by simp
    show "\<not> sep_char (hd ''key = 5'')" by (simp add: sep_char_def)
  next
    fix b
    assume b: "b \<in> set conf"
      and p: "prefix (cstr (mc_name b)) (''key = 5'' @ [blank]) \<or>
              prefix (cstr (mc_name b)) (''key = 5'' @ nl)"
    have nb: "\<forall>ch\<in>set (cstr (mc_name b)). ch \<noteq> blank"
      using a b cstr_subset [of "mc_name b"] by blast
    from p have "prefix (cstr (mc_name b)) ''key''"
    proof
      assume "prefix (cstr (mc_name b)) (''key = 5'' @ [blank])"
      then have "prefix (cstr (mc_name b)) (''key'' @ blank # ''= 5 '')" by simp
      with nb show ?thesis by (rule prefix_before_blank)
    next
      assume "prefix (cstr (mc_name b)) (''key = 5'' @ nl)"
      then have "prefix (cstr (mc_name b)) (''key'' @ blank # (''= 5'' @ nl))" by simp
      with nb show ?thesis by (rule prefix_before_blank)
    qed
    then have "prefix (cstr (mc_name b)) (''key'' @ '' = 5'')" by (rule prefix_prefix)
    then show "prefix (cstr (mc_name b)) ''key = 5''" by simp
  qed
  then have "scan_line conf (''key = 5 # comment'' @ nl) = scan_line conf (''key = 5'' @ nl)"
    by (simp only: scan_line_eq [OF la] scan_line_eq [OF lb] ta tb)
  then show "process_line L conf (''key = 5 # comment'' @ nl) st
              = process_line L conf (''key = 5'' @ nl) st"
    by (simp add: process_line_def)
qed

theorem comment_stripped_witness:
  "length (''x = 5 '' @ CHR ''#'' # '' five'' @ [newline]) < 2 ^ 31 \<and>
   scan_line example_conf (''x = 5 '' @ CHR ''#'' # '' five'' @ [newline])
     = Some (binding MICRO_CONF_INT 0 ''x'', ''5'') \<and>
   process_line (example_libc []) example_conf (''x = 5 '' @ CHR ''#'' # '' five'' @ [newline])
       defaults
     = Inr (defaults(0 := VInt 5)) \<and>
   scan_line example_conf ([blank, tab] @ CHR ''#'' # '' x = 5'' @ [newline]) = None \<and>
   process_line (example_libc []) key_conf (''key = 5 # comment'' @ [newline]) defaults
     = Inr (defaults(0 := VInt 5))"
proof -
  let ?L = "example_libc []"
  have len: "length (''x = 5 '' @ CHR ''#'' # '' five'' @ [newline]) < 2 ^ 31" by simp
  have len2: "length ([blank, tab] @ CHR ''#'' # '' x = 5'' @ [newline]) < 2 ^ 31" by simp
  have len3: "length (''key = 5 '' @ CHR ''#'' # '' comment'' @ [newline]) < 2 ^ 31" by simp
  have p: "process_line ?L example_conf ''x = 5 '' defaults = Inr (defaults(0 := VInt 5))"
    by (subst process_line_scanned [OF scan_x_5_sp]) (simp add: store_int_x strtol_5)
  have pk: "process_line ?L key_conf (''key = 5'' @ [newline]) defaults = Inr (defaults(0 := VInt 5))"
    by (subst process_line_scanned [OF scan_key_5]) (simp add: store_int_x strtol_5)
  have kb: "\<forall>b\<in>set key_conf. blank \<notin> set (mc_name b)"
    by (simp add: key_conf_def binding_def)
  note t1 = comment_stripped [OF len, of example_conf ?L defaults "[]"]
  note t2 = comment_stripped [OF len2, of example_conf ?L defaults "[]"]
  note t3 = comment_stripped [OF len3, of key_conf ?L defaults "[newline]"]
  have a: "scan_line example_conf (''x = 5 '' @ CHR ''#'' # '' five'' @ [newline])
                     = scan_line example_conf ''x = 5 ''"
    by (rule t1 [THEN conjunct1])
  have b: "process_line ?L example_conf (''x = 5 '' @ CHR ''#'' # '' five'' @ [newline]) defaults
             = process_line ?L example_conf ''x = 5 '' defaults"
    by (rule t1 [THEN conjunct2, THEN conjunct1])
  from t2 [THEN conjunct2, THEN conjunct2, THEN conjunct1]
  have c: "scan_line example_conf ([blank, tab] @ CHR ''#'' # '' x = 5'' @ [newline]) = None"
    by simp
  from t3 [THEN conjunct2, THEN conjunct2, THEN conjunct2] kb
  have d: "process_line ?L key_conf (''key = 5 # comment'' @ [newline]) defaults
             = process_line ?L key_conf (''key = 5'' @ [newline]) defaults"
    by simp
  from len a b c d p pk scan_x_5_sp show ?thesis by (simp only: simp_thms)
qed

text \<open>
  Outside these conditions the results differ. With the keys \<open>key = 5\<close> followed by a
  blank and \<open>key\<close>, the line \<open>key = 5 # comment\<close> selects the first binding, whose key
  the text before the \<open>#\<close> begins with, and the line \<open>key = 5\<close> selects the second. And
  in a line of \<open>2 ^ 31\<close> bytes the size that \<open>left_space\<close> receives is negative after the
  cast, so the leading blank is not skipped and no key matches: the long line that
  begins with \<open> x = 1 #\<close> is skipped, while its text before the \<open>#\<close> stores 1.
\<close>

theorem comment_claim_counterexample:
  "process_line (example_libc []) comment_conf (''key = 5 # comment'' @ [newline]) defaults
     = Inr (defaults(0 := VInt 0)) \<and>
   process_line (example_libc []) comment_conf (''key = 5'' @ [newline]) defaults
     = Inr (defaults(1 := VInt 5)) \<and>
   process_line (example_libc []) comment_conf (''key = 5 # comment'' @ [newline]) defaults
     \<noteq> process_line (example_libc []) comment_conf (''key = 5'' @ [newline]) defaults \<and>
   length long_comment_line = 2 ^ 31 \<and>
   process_line (example_libc []) example_conf long_comment_line defaults = Inr defaults \<and>
   process_line (example_libc []) example_conf '' x = 1 '' defaults = Inr (defaults(0 := VInt 1))"
proof -
  let ?L = "example_libc []"
  have a: "process_line ?L comment_conf (''key = 5 # comment'' @ [newline]) defaults
             = Inr (defaults(0 := VInt 0))"
    by (subst process_line_scanned [OF scan_comment_a]) (simp add: store_int_x strtol_empty)
  have b: "process_line ?L comment_conf (''key = 5'' @ [newline]) defaults
             = Inr (defaults(1 := VInt 5))"
    by (subst process_line_scanned [OF scan_comment_b]) (simp add: store_int_x strtol_5)
  have c: "process_line ?L comment_conf (''key = 5 # comment'' @ [newline]) defaults
              \<noteq> process_line ?L comment_conf (''key = 5'' @ [newline]) defaults"
    unfolding a b by (simp add: upd_neq_addr defaults_def)
  have d: "process_line ?L example_conf long_comment_line defaults = Inr defaults"
    by (simp add: process_line_not_scanned [OF scan_long_comment_line])
  have e: "process_line ?L example_conf '' x = 1 '' defaults = Inr (defaults(0 := VInt 1))"
    by (subst process_line_scanned [OF scan_x_1_sp]) (simp add: store_int_x strtol_1)
  from a b c length_long_comment_line d e show ?thesis by (intro conjI)
qed

section \<open>The separator\<close>




section \<open>A missing file\<close>

text \<open>
  C9. For every binding list, a path that cannot be opened for reading makes
  \<open>micro_conf_parse\<close> return \<open>MICRO_CONF_ERROR_OPENING_FILE\<close> and leaves every
  destination as it was.
\<close>

theorem missing_file_opening_error:
  assumes "fopen_read L pathname = None"
  shows "micro_conf_parse L (Some conf) pathname st = (MICRO_CONF_ERROR_OPENING_FILE, st)"
  using assms by (simp add: micro_conf_parse_def)

theorem missing_file_opening_error_witness:
  "fopen_read (example_libc ''x = 1'') ''missing.conf'' = None \<and>
   micro_conf_parse (example_libc ''x = 1'') (Some [binding MICRO_CONF_INT 0 ''x''])
       ''missing.conf'' defaults
     = (MICRO_CONF_ERROR_OPENING_FILE, defaults)"
proof -
  have h: "fopen_read (example_libc ''x = 1'') ''missing.conf'' = None"
    by (simp add: example_libc_def)
  show ?thesis using h missing_file_opening_error [OF h] by simp
qed

section \<open>Empty values\<close>

text \<open>
  C10. For a matched line whose value string is empty, an Int, Double or Float binding is
  written with zero and no error is returned, while a Bool binding gives
  \<open>MICRO_CONF_ERROR_INVALID_BOOL\<close> and a Char binding \<open>MICRO_CONF_ERROR_INVALID_CHAR\<close>.
\<close>

theorem empty_value:
  assumes scan: "scan_line conf line = Some (c, [])"
  shows "process_line L conf line st =
           (case mc_type c of
              MICRO_CONF_INT \<Rightarrow> Inr (st(mc_value c := VInt 0))
            | MICRO_CONF_DOUBLE \<Rightarrow> Inr (st(mc_value c := VDouble 0))
            | MICRO_CONF_FLOAT \<Rightarrow> Inr (st(mc_value c := VFloat 0))
            | MICRO_CONF_BOOL \<Rightarrow> Inl MICRO_CONF_ERROR_INVALID_BOOL
            | MICRO_CONF_CHAR \<Rightarrow> Inl MICRO_CONF_ERROR_INVALID_CHAR
            | MICRO_CONF_STR \<Rightarrow> Inr (st(mc_value c := VStr []))
            | MICRO_CONF_OTHER k \<Rightarrow> Inl MICRO_CONF_ERROR_UNKNOWN_TYPE)"
  by (simp add: process_line_scanned [OF scan] store_value_def strtol_def strtod_def strtof_def
      byte_at_def strlen_def cstr_def deref_def split: MicroConfType.splits)

theorem empty_value_witness:
  "scan_line example_conf line_x_empty = Some (binding MICRO_CONF_INT 0 ''x'', []) \<and>
   process_line (example_libc []) example_conf line_x_empty defaults = Inr (defaults(0 := VInt 0)) \<and>
   scan_line example_conf line_flag_empty = Some (binding MICRO_CONF_BOOL 1 ''flag'', []) \<and>
   process_line (example_libc []) example_conf line_flag_empty defaults
     = Inl MICRO_CONF_ERROR_INVALID_BOOL"
  using empty_value [OF scan_x_empty, of "example_libc []" defaults]
    empty_value [OF scan_flag_empty, of "example_libc []" defaults]
    scan_x_empty scan_flag_empty
  by (simp add: binding_def)

end
